theory Spec2Isabelle
  imports Complex_Main "HOL-Library.Word"
begin

section \<open>Data model of \<open>src/main.cpp\<close>\<close>

type_synonym u8 = "8 word"
type_synonym u32 = "32 word"
type_synonym u64 = "64 word"

text \<open>
  The supervisor talks to two external collaborators: the GPIO pins (\<open>digitalWrite\<close>) and the
  FastAccelStepper object behind the pointer \<open>stepper\<close>. Every call the code makes to them is
  recorded, in program order, in the field \<open>calls\<close> of the state. What the engine answers to
  \<open>stepper->isRunning()\<close> is not computed by this program: each operation that asks takes the
  answer as its argument \<open>running\<close>.
\<close>

datatype pin = PIN_STEP | PIN_DIR | PIN_EN

datatype level = LOW | HIGH

datatype call =
    DigitalWrite pin level
  | SetDirectionPin pin
  | SetEnablePin pin
  | SetAutoEnable bool
  | SetSpeedInHz u32
  | SetAcceleration u32
  | RunForward
  | RunBackward
  | StopMove

datatype CmdType =
  CMD_START | CMD_STOP | CMD_FREQ | CMD_DIR | CMD_EN | CMD_RAMP | CMD_STATUS | CMD_ACCEL

text \<open>\<open>struct Cmd { CmdType type; uint32_t a; uint32_t b; }\<close>\<close>

record Cmd =
  cmd_type :: CmdType
  cmd_a :: u32
  cmd_b :: u32

text \<open>
  The file-scope variables of lines 21 to 29, the pointer \<open>stepper\<close> (only whether it is
  non-null matters), the local \<open>lastPollMs\<close> of \<open>StepTask\<close>, and the log of outgoing calls.
\<close>

record state =
  g_userFreq :: u32
  g_accel :: u32
  g_dir :: u8
  g_en :: u8
  g_alarm :: bool
  g_runReq :: bool
  g_dirPend :: bool
  g_dirNext :: u8
  stepper :: bool
  lastPollMs :: u32
  calls :: "call list"

definition FREQ_MAX :: u32 where
  "FREQ_MAX = 400000"

definition clamp_u32 :: "u32 \<Rightarrow> u32 \<Rightarrow> u32 \<Rightarrow> u32" where
  "clamp_u32 v lo hi = (if v < lo then lo else if v > hi then hi else v)"

definition emit :: "call \<Rightarrow> state \<Rightarrow> state" where
  "emit c s = s\<lparr>calls := calls s @ [c]\<rparr>"

section \<open>The helper functions\<close>

definition applyEnablePin :: "state \<Rightarrow> state" where
  "applyEnablePin s = emit (DigitalWrite PIN_EN (if g_en s \<noteq> 0 then LOW else HIGH)) s"

definition applyDirPin :: "state \<Rightarrow> state" where
  "applyDirPin s = emit (DigitalWrite PIN_DIR (if g_dir s \<noteq> 0 then HIGH else LOW)) s"

definition applyParamsToStepper :: "state \<Rightarrow> state" where
  "applyParamsToStepper s =
     (if \<not> stepper s then s
      else emit (SetAcceleration (clamp_u32 (g_accel s) 1 2000000))
             (emit (SetSpeedInHz (clamp_u32 (g_userFreq s) 1 FREQ_MAX)) s))"

definition applyRunDirectionToUpdateSpeed :: "state \<Rightarrow> state" where
  "applyRunDirectionToUpdateSpeed s =
     (if \<not> stepper s then s
      else if \<not> g_runReq s then s
      else if g_dir s \<noteq> 0 then emit RunBackward s
      else emit RunForward s)"

definition requestStart :: "state \<Rightarrow> state" where
  "requestStart s =
     (if \<not> stepper s \<or> g_en s = 0 \<or> g_alarm s then s
      else applyRunDirectionToUpdateSpeed ((applyParamsToStepper s)\<lparr>g_runReq := True\<rparr>))"

definition requestStop :: "state \<Rightarrow> state" where
  "requestStop s =
     (let s1 = s\<lparr>g_runReq := False\<rparr>
      in if stepper s1 then emit StopMove s1 else s1)"

definition requestDir :: "bool \<Rightarrow> u8 \<Rightarrow> state \<Rightarrow> state" where
  "requestDir running newDir0 s =
     (let newDir = (if newDir0 \<noteq> 0 then 1 else 0)
      in if newDir = g_dir s then s
         else
           let s1 = s\<lparr>g_dirNext := newDir\<rparr>
           in if stepper s1 \<and> running
              then emit StopMove (s1\<lparr>g_dirPend := True\<rparr>)
              else
                let s2 = applyDirPin (s1\<lparr>g_dir := newDir\<rparr>)
                in if g_runReq s2 then requestStart s2 else s2)"

section \<open>\<open>StepTask\<close>\<close>

text \<open>
  The acceleration a ramp command derives (line 148): a 64-bit product, an unsigned 64-bit
  division, and the conversion back to 32 bits.
\<close>

definition ramp_acc :: "u32 \<Rightarrow> u32 \<Rightarrow> u32" where
  "ramp_acc diff ms = ucast (((ucast diff :: u64) * 1000) div (ucast ms :: u64))"

text \<open>One case of the \<open>switch\<close> in the drain loop, lines 110 to 161.\<close>

definition StepTask_cmd :: "bool \<Rightarrow> Cmd \<Rightarrow> state \<Rightarrow> state" where
  "StepTask_cmd running cmd s =
     (case cmd_type cmd of
        CMD_START \<Rightarrow> requestStart s
      | CMD_STOP \<Rightarrow> requestStop s
      | CMD_FREQ \<Rightarrow>
          (let s1 = applyParamsToStepper (s\<lparr>g_userFreq := clamp_u32 (cmd_a cmd) 1 FREQ_MAX\<rparr>)
           in if stepper s1 \<and> running then applyRunDirectionToUpdateSpeed s1 else s1)
      | CMD_ACCEL \<Rightarrow>
          (let s1 = applyParamsToStepper (s\<lparr>g_accel := clamp_u32 (cmd_a cmd) 1 2000000\<rparr>)
           in if stepper s1 \<and> running then applyRunDirectionToUpdateSpeed s1 else s1)
      | CMD_DIR \<Rightarrow> requestDir running (if cmd_a cmd \<noteq> 0 then 1 else 0) s
      | CMD_EN \<Rightarrow>
          (let s1 = applyEnablePin (s\<lparr>g_en := (if cmd_a cmd \<noteq> 0 then 1 else 0)\<rparr>)
           in if g_en s1 = 0 then requestStop s1
              else if g_runReq s1 \<and> \<not> g_alarm s1 then requestStart s1
              else s1)
      | CMD_RAMP \<Rightarrow>
          (let target = clamp_u32 (cmd_a cmd) 1 FREQ_MAX;
               ms = clamp_u32 (cmd_b cmd) 50 60000;
               cur = g_userFreq s;
               diff = (if target > cur then target - cur else cur - target);
               acc = (if diff = 0 then g_accel s else ramp_acc diff ms);
               s1 = applyParamsToStepper
                      (s\<lparr>g_userFreq := target, g_accel := clamp_u32 acc 1 2000000\<rparr>);
               s2 = (if stepper s1 \<and> running then applyRunDirectionToUpdateSpeed s1 else s1)
           in if g_en s2 \<noteq> 0 \<and> \<not> g_alarm s2 then requestStart s2 else s2)
      | CMD_STATUS \<Rightarrow> s)"

text \<open>
  The alarm poll, lines 164 to 173: \<open>now\<close> is what \<open>millis()\<close> returned and \<open>al\<close> what
  \<open>readAlarm()\<close> would return. The subtraction is the 32-bit one of the source.
\<close>

definition StepTask_alarm :: "u32 \<Rightarrow> bool \<Rightarrow> state \<Rightarrow> state" where
  "StepTask_alarm now al s =
     (if now - lastPollMs s \<ge> 10 then
        (let s1 = s\<lparr>lastPollMs := now\<rparr>
         in if al \<noteq> g_alarm s1 then
              (let s2 = s1\<lparr>g_alarm := al\<rparr>
               in if g_alarm s2 then requestStop s2
                  else if g_runReq s2 \<and> g_en s2 \<noteq> 0 then requestStart s2
                  else s2)
            else s1)
      else s)"

text \<open>The completion of a deferred direction change, lines 175 to 180.\<close>

definition StepTask_dirPend :: "bool \<Rightarrow> state \<Rightarrow> state" where
  "StepTask_dirPend running s =
     (if g_dirPend s \<and> stepper s \<and> \<not> running then
        (let s1 = applyDirPin (s\<lparr>g_dirPend := False, g_dir := g_dirNext s\<rparr>)
         in if g_runReq s1 \<and> g_en s1 \<noteq> 0 \<and> \<not> g_alarm s1 then requestStart s1 else s1)
      else s)"

text \<open>
  One pass through the body of \<open>while (true)\<close>: the queue is drained (each command paired
  with the engine's answer while it is handled), then the alarm poll, then the deferred
  direction change.
\<close>

definition StepTask_iteration :: "(bool \<times> Cmd) list \<Rightarrow> u32 \<Rightarrow> bool \<Rightarrow> bool \<Rightarrow> state \<Rightarrow> state" where
  "StepTask_iteration queue now al running s =
     StepTask_dirPend running
       (StepTask_alarm now al
         (foldl (\<lambda>t (r, c). StepTask_cmd r c t) s queue))"

section \<open>Start-up\<close>

text \<open>The static initialisers; \<open>stepper\<close> is \<open>nullptr\<close> and nothing has been called yet.\<close>

definition globals_init :: state where
  "globals_init =
     \<lparr>g_userFreq = 10000, g_accel = 200000, g_dir = 0, g_en = 1, g_alarm = False,
      g_runReq = False, g_dirPend = False, g_dirNext = 0, stepper = False,
      lastPollMs = 0, calls = []\<rparr>"

text \<open>
  The body of the start-up function of the source, up to the creation of the tasks. The argument says whether
  \<open>engine.stepperConnectToPin\<close> returned a stepper; if it did not, the function never
  returns, which is the value \<open>None\<close>.
\<close>

definition setup_fn :: "bool \<Rightarrow> state option" where
  "setup_fn attached =
     (let s1 = emit (DigitalWrite PIN_STEP LOW) globals_init;
          s2 = applyDirPin (s1\<lparr>g_dir := 0\<rparr>);
          s3 = applyEnablePin (s2\<lparr>g_en := 1\<rparr>);
          s4 = s3\<lparr>stepper := attached\<rparr>
      in if \<not> stepper s4 then None
         else Some (applyParamsToStepper
                (emit (SetAutoEnable True)
                  (emit (SetEnablePin PIN_EN)
                    (emit (SetDirectionPin PIN_DIR) s4)))))"

section \<open>Executions\<close>

text \<open>
  The supervisor moves in three kinds of step. A state is reachable when it is the state
  after \<open>setup_fn\<close> or the result of a step from a reachable state. Every pass through the
  task's loop is a sequence of such steps.
\<close>

datatype step = Command bool Cmd | AlarmPoll u32 bool | DirTick bool

fun supervisor_step :: "step \<Rightarrow> state \<Rightarrow> state" where
  "supervisor_step (Command running cmd) s = StepTask_cmd running cmd s"
| "supervisor_step (AlarmPoll now al) s = StepTask_alarm now al s"
| "supervisor_step (DirTick running) s = StepTask_dirPend running s"

inductive reachable :: "state \<Rightarrow> bool" where
  reachable_init: "setup_fn True = Some s \<Longrightarrow> reachable s"
| reachable_step: "reachable s \<Longrightarrow> reachable (supervisor_step e s)"

text \<open>The calls made between an earlier state and a later one.\<close>

definition emitted :: "state \<Rightarrow> state \<Rightarrow> call list" where
  "emitted s s' = drop (length (calls s)) (calls s')"

text \<open>The fields that make up the motion state, without the call log and the poll timer.\<close>

definition motion_state :: "state \<Rightarrow> u32 \<times> u32 \<times> u8 \<times> u8 \<times> bool \<times> bool \<times> bool \<times> u8" where
  "motion_state s =
     (g_userFreq s, g_accel s, g_dir s, g_en s, g_alarm s, g_runReq s, g_dirPend s, g_dirNext s)"

definition is_run :: "call \<Rightarrow> bool" where
  "is_run c = (c = RunForward \<or> c = RunBackward)"

definition mk_cmd :: "CmdType \<Rightarrow> u32 \<Rightarrow> u32 \<Rightarrow> Cmd" where
  "mk_cmd t x y = \<lparr>cmd_type = t, cmd_a = x, cmd_b = y\<rparr>"

text \<open>
  The ramp rate in the words of the specification, section 4.4: the quotient of
  \<open>delta * 1000\<close> by the duration, rounded to the nearest integer. It is kept apart from
  \<open>ramp_acc\<close>, which is what the code computes.
\<close>

definition spec_ramp_rate :: "nat \<Rightarrow> nat \<Rightarrow> int" where
  "spec_ramp_rate delta durationMs = round (real delta * 1000 / real durationMs)"

text \<open>The absolute difference of line 147, named for the proofs.\<close>

definition abs_diff_u32 :: "u32 \<Rightarrow> u32 \<Rightarrow> u32" where
  "abs_diff_u32 t c = (if t > c then t - c else c - t)"

text \<open>Whether a call writes the direction pin, and the level written for a direction.\<close>

definition is_dir_write :: "call \<Rightarrow> bool" where
  "is_dir_write c = (case c of DigitalWrite p l \<Rightarrow> p = PIN_DIR | _ \<Rightarrow> False)"

definition dir_level :: "u8 \<Rightarrow> level" where
  "dir_level d = (if d \<noteq> 0 then HIGH else LOW)"

text \<open>A step in which the engine was asked and answered that it is not running.\<close>

fun observes_stopped :: "step \<Rightarrow> bool" where
  "observes_stopped (Command running cmd) = (\<not> running)"
| "observes_stopped (AlarmPoll now al) = False"
| "observes_stopped (DirTick running) = (\<not> running)"

text \<open>
  The steps that may come between the request for a new direction and the tick that
  completes it: every alarm poll, every tick that still sees the engine running, every
  command other than set-direction, and a set-direction that sees the engine running.
\<close>

fun defers :: "step \<Rightarrow> bool" where
  "defers (Command running cmd) = (running \<or> cmd_type cmd \<noteq> CMD_DIR)"
| "defers (AlarmPoll now al) = True"
| "defers (DirTick running) = running"

text \<open>
  The direction a step asks for: the normalised payload of a set-direction command, and
  nothing for every other step.
\<close>

fun requested_dir :: "step \<Rightarrow> u8 option" where
  "requested_dir (Command running cmd) =
     (if cmd_type cmd = CMD_DIR then Some (if cmd_a cmd \<noteq> 0 then 1 else 0) else None)"
| "requested_dir (AlarmPoll now al) = None"
| "requested_dir (DirTick running) = None"

definition run_steps :: "step list \<Rightarrow> state \<Rightarrow> state" where
  "run_steps es s = foldl (\<lambda>t e. supervisor_step e t) s es"

text \<open>
  The rule for the direction pin in one step from the state \<open>s\<close>: if the step writes the
  pin at all, then the engine answered in that step that it is not running, the write is
  the first call the step makes, it is the only write of the pin in the step, and the
  level written is that of the direction applied after the step.
\<close>

definition pin_rule :: "step \<Rightarrow> state \<Rightarrow> bool" where
  "pin_rule e s \<longleftrightarrow>
     (filter is_dir_write (emitted s (supervisor_step e s)) \<noteq> [] \<longrightarrow>
        observes_stopped e \<and>
        hd (emitted s (supervisor_step e s))
          = DigitalWrite PIN_DIR (dir_level (g_dir (supervisor_step e s))) \<and>
        filter is_dir_write (emitted s (supervisor_step e s))
          = [DigitalWrite PIN_DIR (dir_level (g_dir (supervisor_step e s)))])"

text \<open>A change from the applied direction \<open>d\<close> to the other direction \<open>d'\<close> is pending.\<close>

definition pending_to :: "u8 \<Rightarrow> u8 \<Rightarrow> state \<Rightarrow> bool" where
  "pending_to d d' s \<longleftrightarrow>
     stepper s \<and> g_dirPend s \<and> g_dir s = d \<and> g_dirNext s = d' \<and>
     (d = 0 \<or> d = 1) \<and> (d' = 0 \<or> d' = 1) \<and> d' \<noteq> d"

section \<open>Concrete executions used as examples\<close>

text \<open>The state in which the tasks start, when the stepper was attached.\<close>

definition booted :: state where
  "booted =
     \<lparr>g_userFreq = 10000, g_accel = 200000, g_dir = 0, g_en = 1, g_alarm = False,
      g_runReq = False, g_dirPend = False, g_dirNext = 0, stepper = True,
      lastPollMs = 0,
      calls = [DigitalWrite PIN_STEP LOW, DigitalWrite PIN_DIR LOW, DigitalWrite PIN_EN LOW,
               SetDirectionPin PIN_DIR, SetEnablePin PIN_EN, SetAutoEnable True,
               SetSpeedInHz 10000, SetAcceleration 200000]\<rparr>"

text \<open>After a start command: the motor has been told to run forward.\<close>

definition moving :: state where
  "moving = StepTask_cmd False (mk_cmd CMD_START 0 0) booted"

text \<open>After the alarm input was sampled high at time 10 ms in the start-up state.\<close>

definition alarmed :: state where
  "alarmed = StepTask_alarm 10 True booted"

text \<open>After a request for the backward direction arrived while the motor was running.\<close>

definition turning :: state where
  "turning = StepTask_cmd True (mk_cmd CMD_DIR 1 0) moving"

section \<open>The invariant of the reachable states\<close>

definition supervisor_inv :: "state \<Rightarrow> bool" where
  "supervisor_inv s \<longleftrightarrow>
     stepper s \<and>
     1 \<le> g_userFreq s \<and> g_userFreq s \<le> 400000 \<and>
     1 \<le> g_accel s \<and> g_accel s \<le> 2000000 \<and>
     (g_dir s = 0 \<or> g_dir s = 1) \<and>
     (g_en s = 0 \<or> g_en s = 1) \<and>
     (g_dirNext s = 0 \<or> g_dirNext s = 1) \<and>
     (g_runReq s \<longrightarrow> g_en s \<noteq> 0 \<and> \<not> g_alarm s)"

section \<open>Basic facts\<close>

lemmas op_defs = emit_def applyEnablePin_def applyDirPin_def applyParamsToStepper_def
  applyRunDirectionToUpdateSpeed_def requestStart_def requestStop_def requestDir_def

lemma unat_clamp_u32:
  "unat lo \<le> unat hi \<Longrightarrow> unat (clamp_u32 v lo hi) = max (unat lo) (min (unat hi) (unat v))"
  by (auto simp: clamp_u32_def word_less_nat_alt)

lemma clamp_u32_bounds: "lo \<le> hi \<Longrightarrow> lo \<le> clamp_u32 v lo hi \<and> clamp_u32 v lo hi \<le> hi"
  by (auto simp: clamp_u32_def)

lemma clamp_freq [simp]: "1 \<le> clamp_u32 v 1 FREQ_MAX" "clamp_u32 v 1 FREQ_MAX \<le> 400000"
  using clamp_u32_bounds [of 1 FREQ_MAX v] by (simp_all add: FREQ_MAX_def)

lemma clamp_acc [simp]: "1 \<le> clamp_u32 v 1 2000000" "clamp_u32 v 1 2000000 \<le> 2000000"
  using clamp_u32_bounds [of 1 2000000 v] by simp_all

lemma clamp_u32_idem: "lo \<le> hi \<Longrightarrow> clamp_u32 (clamp_u32 v lo hi) lo hi = clamp_u32 v lo hi"
  by (auto simp: clamp_u32_def)

lemma clamp_idem_freq [simp]:
  "clamp_u32 (clamp_u32 v 1 FREQ_MAX) 1 FREQ_MAX = clamp_u32 v 1 FREQ_MAX"
  by (rule clamp_u32_idem) (simp add: FREQ_MAX_def)

lemma clamp_idem_acc [simp]:
  "clamp_u32 (clamp_u32 v 1 2000000) 1 2000000 = clamp_u32 v 1 2000000"
  by (rule clamp_u32_idem) simp

lemma clamp_u32_id: "lo \<le> v \<Longrightarrow> v \<le> hi \<Longrightarrow> clamp_u32 v lo hi = v"
  by (auto simp: clamp_u32_def)

lemma emitted_self [simp]: "emitted s s = []"
  by (simp add: emitted_def)

lemma setup_fn_booted: "setup_fn True = Some booted"
  by (simp add: setup_fn_def globals_init_def booted_def op_defs Let_def clamp_u32_def
      FREQ_MAX_def)

lemma setup_fn_halts: "setup_fn False = None"
  by (simp add: setup_fn_def globals_init_def op_defs Let_def)

lemma moving_eq:
  "moving = booted\<lparr>g_runReq := True,
      calls := calls booted @ [SetSpeedInHz 10000, SetAcceleration 200000, RunForward]\<rparr>"
  by (simp add: moving_def booted_def StepTask_cmd_def mk_cmd_def op_defs clamp_u32_def
      FREQ_MAX_def)

lemma alarmed_eq:
  "alarmed = booted\<lparr>g_alarm := True, lastPollMs := 10, calls := calls booted @ [StopMove]\<rparr>"
  by (simp add: alarmed_def booted_def StepTask_alarm_def op_defs Let_def)

lemma turning_eq:
  "turning = moving\<lparr>g_dirNext := 1, g_dirPend := True, calls := calls moving @ [StopMove]\<rparr>"
  by (simp add: turning_def moving_eq booted_def StepTask_cmd_def mk_cmd_def op_defs Let_def)

lemma reachable_booted: "reachable booted"
  by (rule reachable_init [OF setup_fn_booted])

lemma reachable_moving: "reachable moving"
  unfolding moving_def
  using reachable_step [OF reachable_booted, of "Command False (mk_cmd CMD_START 0 0)"]
  by simp

lemma reachable_alarmed: "reachable alarmed"
  unfolding alarmed_def
  using reachable_step [OF reachable_booted, of "AlarmPoll 10 True"] by simp

lemma reachable_turning: "reachable turning"
  unfolding turning_def
  using reachable_step [OF reachable_moving, of "Command True (mk_cmd CMD_DIR 1 0)"] by simp

lemma inv_setup: "setup_fn True = Some s \<Longrightarrow> supervisor_inv s"
  by (auto simp: setup_fn_def globals_init_def supervisor_inv_def op_defs Let_def)

lemma inv_cmd: "supervisor_inv s \<Longrightarrow> supervisor_inv (StepTask_cmd r c s)"
  unfolding StepTask_cmd_def supervisor_inv_def
  by (cases "cmd_type c") (auto simp: op_defs Let_def)

lemma inv_alarm: "supervisor_inv s \<Longrightarrow> supervisor_inv (StepTask_alarm now al s)"
  unfolding StepTask_alarm_def supervisor_inv_def
  by (auto simp: op_defs Let_def)

lemma inv_dirPend: "supervisor_inv s \<Longrightarrow> supervisor_inv (StepTask_dirPend r s)"
  unfolding StepTask_dirPend_def supervisor_inv_def
  by (auto simp: op_defs Let_def)

lemma reachable_inv: "reachable s \<Longrightarrow> supervisor_inv s"
proof (induction rule: reachable.induct)
  case (reachable_init s)
  then show ?case by (rule inv_setup)
next
  case (reachable_step s e)
  then show ?case by (cases e) (simp_all add: inv_cmd inv_alarm inv_dirPend)
qed

text \<open>A pass through the loop of the task leads from reachable states to reachable states.\<close>

lemma reachable_queue:
  "reachable s \<Longrightarrow> reachable (foldl (\<lambda>t (r, c). StepTask_cmd r c t) s queue)"
proof (induction queue arbitrary: s)
  case Nil
  then show ?case by simp
next
  case (Cons rc queue)
  obtain r c where rc: "rc = (r, c)" by (cases rc)
  have "reachable (supervisor_step (Command r c) s)"
    using Cons.prems by (rule reachable_step)
  then show ?case using Cons.IH rc by simp
qed

lemma reachable_iteration:
  assumes "reachable s"
  shows "reachable (StepTask_iteration queue now al running s)"
proof -
  let ?a = "foldl (\<lambda>t (r, c). StepTask_cmd r c t) s queue"
  have "reachable ?a" using assms by (rule reachable_queue)
  then have "reachable (supervisor_step (AlarmPoll now al) ?a)" by (rule reachable_step)
  then have "reachable (supervisor_step (DirTick running) (supervisor_step (AlarmPoll now al) ?a))"
    by (rule reachable_step)
  then show ?thesis by (simp add: StepTask_iteration_def)
qed

section \<open>Clamping of frequency and acceleration\<close>

text \<open>
  Claim C6. For every input \<open>f\<close>, after the set-frequency command the stored target
  frequency is \<open>f\<close> clamped to the range from 1 to 400000, and for every input \<open>a\<close>, after
  the set-acceleration command the stored acceleration is \<open>a\<close> clamped to the range from 1
  to 2000000. Neither command changes any other field of the motion state. This holds in
  every state and whatever the engine answers to \<open>isRunning\<close>.
\<close>

theorem set_frequency_acceleration_clamped:
  "(let sf = StepTask_cmd rf (mk_cmd CMD_FREQ f yf) s;
        sa = StepTask_cmd ra (mk_cmd CMD_ACCEL a ya) s
    in unat (g_userFreq sf) = max 1 (min 400000 (unat f)) \<and>
       g_accel sf = g_accel s \<and> g_dir sf = g_dir s \<and> g_en sf = g_en s \<and>
       g_alarm sf = g_alarm s \<and> g_runReq sf = g_runReq s \<and>
       g_dirPend sf = g_dirPend s \<and> g_dirNext sf = g_dirNext s \<and>
       unat (g_accel sa) = max 1 (min 2000000 (unat a)) \<and>
       g_userFreq sa = g_userFreq s \<and> g_dir sa = g_dir s \<and> g_en sa = g_en s \<and>
       g_alarm sa = g_alarm s \<and> g_runReq sa = g_runReq s \<and>
       g_dirPend sa = g_dirPend s \<and> g_dirNext sa = g_dirNext s)"
  by (simp add: StepTask_cmd_def mk_cmd_def op_defs Let_def unat_clamp_u32 FREQ_MAX_def)

text \<open>On the running motor: 500000 Hz is stored as 400000, and an acceleration of 0 as 1.\<close>

theorem set_frequency_acceleration_clamped_witness:
  "g_userFreq (StepTask_cmd True (mk_cmd CMD_FREQ 500000 0) moving) = 400000 \<and>
   g_accel (StepTask_cmd True (mk_cmd CMD_FREQ 500000 0) moving) = 200000 \<and>
   g_accel (StepTask_cmd True (mk_cmd CMD_ACCEL 0 0) moving) = 1 \<and>
   g_userFreq (StepTask_cmd True (mk_cmd CMD_ACCEL 0 0) moving) = 10000"
  using set_frequency_acceleration_clamped
    [where rf = True and f = 500000 and yf = 0 and s = moving and ra = True and a = 0 and ya = 0]
  by (simp add: Let_def moving_eq booted_def word_unat_eq_iff)

section \<open>Idempotence of stop, and a repeated direction\<close>

text \<open>
  Claim C8. Stop is idempotent: in every state, a second stop command leaves the motion
  state as the first one left it. A set-direction command whose direction is the one already
  applied changes nothing at all, in every state and whatever the engine answers: no field
  changes (so no direction change becomes pending) and no call is made (so no stop is
  issued). The state is arbitrary, so this covers the states with a direction change pending.
\<close>

theorem stop_idempotent_same_direction_noop:
  "motion_state (StepTask_cmd rb (mk_cmd CMD_STOP xb yb) (StepTask_cmd ra (mk_cmd CMD_STOP xa ya) s))
     = motion_state (StepTask_cmd ra (mk_cmd CMD_STOP xa ya) s) \<and>
   ((if x \<noteq> 0 then 1 else 0) = g_dir s \<longrightarrow> StepTask_cmd r (mk_cmd CMD_DIR x y) s = s)"
  by (simp add: StepTask_cmd_def mk_cmd_def requestStop_def requestDir_def emit_def Let_def
      motion_state_def)

text \<open>While the change to backward is pending, a request for forward is ignored.\<close>

theorem stop_idempotent_same_direction_noop_witness:
  "motion_state (StepTask_cmd True (mk_cmd CMD_STOP 0 0) (StepTask_cmd True (mk_cmd CMD_STOP 0 0) turning))
     = motion_state (StepTask_cmd True (mk_cmd CMD_STOP 0 0) turning) \<and>
   g_dirPend turning \<and> g_dir turning = 0 \<and>
   StepTask_cmd True (mk_cmd CMD_DIR 0 0) turning = turning"
  using stop_idempotent_same_direction_noop
    [where s = turning and x = 0 and r = True and y = 0 and ra = True and rb = True
       and xa = 0 and xb = 0 and ya = 0 and yb = 0]
  by (simp add: turning_eq moving_eq booted_def)

section \<open>A start command while the alarm is active\<close>

text \<open>
  Claim C2, as amended. In every state in which the alarm is active, a start command does
  nothing: no call is made to the engine, so no run call, and no field changes. In
  particular the run request keeps the value it had; it is not set.
\<close>

theorem start_under_alarm_is_ignored:
  "g_alarm s \<Longrightarrow> StepTask_cmd running (mk_cmd CMD_START x y) s = s"
  by (simp add: StepTask_cmd_def mk_cmd_def requestStart_def)

theorem start_under_alarm_is_ignored_witness:
  "g_alarm alarmed \<and> StepTask_cmd False (mk_cmd CMD_START 0 0) alarmed = alarmed"
proof -
  have a: "g_alarm alarmed" by (simp add: alarmed_eq)
  show ?thesis using a start_under_alarm_is_ignored [OF a, of False 0 0] by simp
qed

text \<open>
  The claim as written says that the start command sets the run request. After the alarm
  went active in the start-up state, a start command leaves the run request false.
\<close>

theorem start_under_alarm_sets_runReq_counterexample:
  "g_alarm alarmed \<and> \<not> g_runReq (StepTask_cmd False (mk_cmd CMD_START 0 0) alarmed)"
  by (simp add: alarmed_eq booted_def StepTask_cmd_def mk_cmd_def requestStart_def)

section \<open>The state at start-up\<close>

text \<open>
  Claim C7, as amended. When the stepper was attached, the state in which the tasks start
  has the driver enabled (the flag is 1 and the enable pin, active low, was driven low and
  never high), the direction forward, no run request, no pending direction change and no
  alarm, the default frequency and acceleration, and no run call has been made.
\<close>

theorem startup_defaults:
  "setup_fn True = Some s \<Longrightarrow>
     g_en s = 1 \<and> DigitalWrite PIN_EN LOW \<in> set (calls s) \<and>
     DigitalWrite PIN_EN HIGH \<notin> set (calls s) \<and>
     g_dir s = 0 \<and> DigitalWrite PIN_DIR LOW \<in> set (calls s) \<and>
     \<not> g_runReq s \<and> \<not> g_dirPend s \<and> \<not> g_alarm s \<and>
     g_userFreq s = 10000 \<and> g_accel s = 200000 \<and>
     RunForward \<notin> set (calls s) \<and> RunBackward \<notin> set (calls s)"
  by (auto simp: setup_fn_booted booted_def)

theorem startup_defaults_witness:
  "setup_fn True = Some booted \<and> g_en booted = 1 \<and> g_dir booted = 0 \<and> \<not> g_runReq booted"
  using startup_defaults [OF setup_fn_booted] setup_fn_booted by simp

text \<open>
  The claim as written says that the enable flag is false at start-up. The static
  initialiser and the start-up function both set it to 1.
\<close>

theorem startup_disabled_counterexample:
  "g_en globals_init = 1 \<and> map_option g_en (setup_fn True) = Some 1 \<and>
   map_option g_en (setup_fn True) \<noteq> Some 0"
  by (simp add: setup_fn_booted booted_def globals_init_def)

section \<open>The alarm input\<close>

text \<open>
  Claim C1. On a rising edge of the alarm input the supervisor stops the engine at once and
  records the alarm, and the run request is to survive the edge. The code does the first
  two and not the third: whenever a poll is due (10 ms or more since the last one), the
  alarm was inactive and the input now reads active, the only call made is \<open>stopMove\<close>,
  the alarm flag is set, and the run request is false afterwards, whatever it was before.
  The edge is handled by \<open>requestStop\<close>, whose first statement clears the request.
\<close>

theorem alarm_rising_edge_clears_runReq:
  "10 \<le> now - lastPollMs s \<Longrightarrow> \<not> g_alarm s \<Longrightarrow> stepper s \<Longrightarrow>
     (let s' = StepTask_alarm now True s
      in g_alarm s' \<and> emitted s s' = [StopMove] \<and> \<not> g_runReq s')"
  by (simp add: StepTask_alarm_def requestStop_def emit_def Let_def emitted_def)

text \<open>The motor was asked to run; after the edge the request is gone.\<close>

theorem alarm_rising_edge_clears_runReq_witness:
  "g_runReq moving \<and> \<not> g_alarm moving \<and> g_alarm (StepTask_alarm 10 True moving) \<and>
   emitted moving (StepTask_alarm 10 True moving) = [StopMove] \<and>
   \<not> g_runReq (StepTask_alarm 10 True moving)"
  using alarm_rising_edge_clears_runReq [of 10 moving]
  by (simp add: Let_def moving_eq booted_def)

text \<open>
  The branch of the poll that restarts the motor on a falling edge tests the run request.
  In no reachable state is the request set while the alarm is active, so on a falling edge
  the supervisor never calls anything.
\<close>

lemma alarm_falling_edge_never_resumes:
  assumes "reachable s" and "g_alarm s"
  shows "emitted s (StepTask_alarm now False s) = []"
proof -
  from assms have "\<not> g_runReq s"
    using reachable_inv [of s] by (auto simp: supervisor_inv_def)
  then show ?thesis
    by (simp add: StepTask_alarm_def Let_def emitted_def)
qed

section \<open>Disabling and enabling again\<close>

text \<open>
  Claim C3. Disabling a running motor is to stop it and keep the run request, so that
  enabling it again resumes the motion. In the code the disable command writes the enable
  pin high, calls \<open>stopMove\<close> and clears the run request; the enable command that follows
  only writes the enable pin low. No run call is made and the request stays false, from
  every state with a stepper attached and whatever the alarm level.
\<close>

theorem disable_then_enable_does_not_resume:
  "stepper s \<Longrightarrow> x \<noteq> 0 \<Longrightarrow>
     (let s1 = StepTask_cmd ra (mk_cmd CMD_EN 0 ya) s;
          s2 = StepTask_cmd rb (mk_cmd CMD_EN x yb) s1
      in emitted s s1 = [DigitalWrite PIN_EN HIGH, StopMove] \<and> \<not> g_runReq s1 \<and>
         emitted s1 s2 = [DigitalWrite PIN_EN LOW] \<and> \<not> g_runReq s2 \<and> g_en s2 = 1)"
  by (simp add: StepTask_cmd_def mk_cmd_def op_defs Let_def emitted_def)

text \<open>From the running motor, without alarm: disabled, enabled again, and still stopped.\<close>

theorem disable_then_enable_does_not_resume_witness:
  "g_runReq moving \<and> \<not> g_alarm moving \<and>
   \<not> g_runReq (StepTask_cmd True (mk_cmd CMD_EN 0 0) moving) \<and>
   emitted (StepTask_cmd True (mk_cmd CMD_EN 0 0) moving)
     (StepTask_cmd False (mk_cmd CMD_EN 1 0) (StepTask_cmd True (mk_cmd CMD_EN 0 0) moving))
     = [DigitalWrite PIN_EN LOW] \<and>
   \<not> g_runReq (StepTask_cmd False (mk_cmd CMD_EN 1 0) (StepTask_cmd True (mk_cmd CMD_EN 0 0) moving))"
  using disable_then_enable_does_not_resume
    [where s = moving and x = 1 and ra = True and rb = False and ya = 0 and yb = 0]
  by (simp add: Let_def moving_eq booted_def)

text \<open>
  In no reachable state is the run request set while the driver is disabled, so enabling a
  disabled driver never restarts the motor: the branch of the enable command that calls
  \<open>requestStart\<close> is only taken when the driver was enabled already.
\<close>

lemma enable_from_disabled_never_resumes:
  assumes "reachable s" and "g_en s = 0" and "x \<noteq> 0"
  shows "emitted s (StepTask_cmd r (mk_cmd CMD_EN x y) s) = [DigitalWrite PIN_EN LOW]"
proof -
  from assms(1,2) have "\<not> g_runReq s"
    using reachable_inv [of s] by (auto simp: supervisor_inv_def)
  then show ?thesis
    using assms(3) by (simp add: StepTask_cmd_def mk_cmd_def op_defs Let_def emitted_def)
qed

section \<open>A speed change while a direction change is pending\<close>

text \<open>
  Claim C10. When a direction change is pending, the run request is set and the engine
  still reports running, a set-frequency or set-acceleration command pushes the parameters
  and then calls run again in the direction that is still applied. The direction pin is not
  written, and the change stays pending with its target.
\<close>

theorem speed_change_restarts_old_direction_while_pending:
  "stepper s \<Longrightarrow> g_dirPend s \<Longrightarrow> g_runReq s \<Longrightarrow>
     (let sf = StepTask_cmd True (mk_cmd CMD_FREQ f yf) s;
          sa = StepTask_cmd True (mk_cmd CMD_ACCEL a ya) s
      in emitted s sf = [SetSpeedInHz (clamp_u32 f 1 FREQ_MAX),
                         SetAcceleration (clamp_u32 (g_accel s) 1 2000000),
                         (if g_dir s \<noteq> 0 then RunBackward else RunForward)] \<and>
         g_dirPend sf \<and> g_dir sf = g_dir s \<and> g_dirNext sf = g_dirNext s \<and>
         emitted s sa = [SetSpeedInHz (clamp_u32 (g_userFreq s) 1 FREQ_MAX),
                         SetAcceleration (clamp_u32 a 1 2000000),
                         (if g_dir s \<noteq> 0 then RunBackward else RunForward)] \<and>
         g_dirPend sa \<and> g_dir sa = g_dir s \<and> g_dirNext sa = g_dirNext s)"
  by (simp add: StepTask_cmd_def mk_cmd_def op_defs Let_def emitted_def)

text \<open>
  The motor runs forward and a turn to backward is pending: both commands end with
  \<open>runForward\<close>.
\<close>

theorem speed_change_restarts_old_direction_while_pending_witness:
  "stepper turning \<and> g_dirPend turning \<and> g_runReq turning \<and> g_dir turning = 0 \<and>
   g_dirNext turning = 1 \<and>
   emitted turning (StepTask_cmd True (mk_cmd CMD_FREQ 20000 0) turning)
     = [SetSpeedInHz 20000, SetAcceleration 200000, RunForward] \<and>
   emitted turning (StepTask_cmd True (mk_cmd CMD_ACCEL 50000 0) turning)
     = [SetSpeedInHz 10000, SetAcceleration 50000, RunForward]"
  using speed_change_restarts_old_direction_while_pending
    [where s = turning and f = 20000 and yf = 0 and a = 50000 and ya = 0]
  by (simp add: Let_def turning_eq moving_eq booted_def clamp_u32_def FREQ_MAX_def)

section \<open>No run call while the alarm is active or the driver is disabled\<close>

lemma run_only_when_enabled_cmd:
  assumes "supervisor_inv s" and "c \<in> set (emitted s (StepTask_cmd r cmd s))" and "is_run c"
  shows "g_en s \<noteq> 0 \<and> \<not> g_alarm s \<and>
         g_en (StepTask_cmd r cmd s) \<noteq> 0 \<and> \<not> g_alarm (StepTask_cmd r cmd s)"
  using assms unfolding StepTask_cmd_def supervisor_inv_def
  by (cases "cmd_type cmd")
     (auto simp: op_defs Let_def emitted_def is_run_def split: if_splits)

lemma run_only_when_enabled_alarm:
  assumes "supervisor_inv s" and "c \<in> set (emitted s (StepTask_alarm now al s))" and "is_run c"
  shows "g_en s \<noteq> 0 \<and> \<not> g_alarm s \<and>
         g_en (StepTask_alarm now al s) \<noteq> 0 \<and> \<not> g_alarm (StepTask_alarm now al s)"
  using assms unfolding StepTask_alarm_def supervisor_inv_def
  by (auto simp: op_defs Let_def emitted_def is_run_def split: if_splits)

lemma run_only_when_enabled_dirPend:
  assumes "supervisor_inv s" and "c \<in> set (emitted s (StepTask_dirPend r s))" and "is_run c"
  shows "g_en s \<noteq> 0 \<and> \<not> g_alarm s \<and>
         g_en (StepTask_dirPend r s) \<noteq> 0 \<and> \<not> g_alarm (StepTask_dirPend r s)"
  using assms unfolding StepTask_dirPend_def supervisor_inv_def
  by (auto simp: op_defs Let_def emitted_def is_run_def split: if_splits)

text \<open>
  Claim C9. From every reachable state and for every step of the supervisor (a command
  with any answer of the engine, an alarm poll, a direction tick): if the step makes a run
  call, then the driver is enabled and the alarm inactive both before and after the step.
  A step assigns each of the two flags at most once, so they have these values at the
  moment of the call. Hence no run call is made while the alarm is active, and none while
  the driver is disabled.
\<close>

theorem no_run_call_while_alarm_or_disabled:
  assumes "reachable s" and "c \<in> set (emitted s (supervisor_step e s))" and "is_run c"
  shows "g_en s \<noteq> 0 \<and> \<not> g_alarm s \<and>
         g_en (supervisor_step e s) \<noteq> 0 \<and> \<not> g_alarm (supervisor_step e s)"
proof -
  have i: "supervisor_inv s" using assms(1) by (rule reachable_inv)
  show ?thesis
  proof (cases e)
    case (Command r cmd)
    with assms(2,3) i show ?thesis using run_only_when_enabled_cmd [of s c r cmd] by simp
  next
    case (AlarmPoll now al)
    with assms(2,3) i show ?thesis using run_only_when_enabled_alarm [of s c now al] by simp
  next
    case (DirTick r)
    with assms(2,3) i show ?thesis using run_only_when_enabled_dirPend [of s c r] by simp
  qed
qed

text \<open>The start command in the start-up state makes a run call; the driver is enabled.\<close>

theorem no_run_call_while_alarm_or_disabled_witness:
  "reachable booted \<and>
   RunForward \<in> set (emitted booted (supervisor_step (Command False (mk_cmd CMD_START 0 0)) booted)) \<and>
   is_run RunForward \<and> g_en booted \<noteq> 0 \<and> \<not> g_alarm booted"
proof -
  have m: "RunForward \<in> set (emitted booted (supervisor_step (Command False (mk_cmd CMD_START 0 0)) booted))"
    using moving_eq by (simp add: moving_def emitted_def)
  have r: "is_run RunForward" by (simp add: is_run_def)
  show ?thesis
    using no_run_call_while_alarm_or_disabled [OF reachable_booted m r] reachable_booted m r
    by simp
qed

section \<open>The ramp command\<close>

lemma spec_ramp_rate_1_600: "spec_ramp_rate 1 600 = 2"
  unfolding spec_ramp_rate_def by (rule round_unique) simp_all

lemma spec_ramp_rate_Suc0_600: "spec_ramp_rate (Suc 0) 600 = 2"
  using spec_ramp_rate_1_600 by simp

lemma unat_ucast_32_64: "unat (ucast (w :: u32) :: u64) = unat w"
proof -
  have "unat w < 2 ^ 32" using unsigned_less [of w, where 'a = nat] by simp
  then have "unat w < (2 :: nat) ^ 64" by simp
  then show ?thesis by (simp add: unsigned_ucast_eq take_bit_nat_eq_self)
qed

lemma unat_ramp_acc:
  assumes "unat diff \<le> 400000" and "50 \<le> unat ms"
  shows "unat (ramp_acc diff ms) = unat diff * 1000 div unat ms"
proof -
  let ?d = "ucast diff :: u64" and ?m = "ucast ms :: u64"
  have d: "unat ?d = unat diff" and m: "unat ?m = unat ms"
    by (simp_all add: unat_ucast_32_64)
  have "unat ?d * unat (1000 :: u64) < 2 ^ LENGTH(64)"
    using assms(1) d by simp
  then have p: "unat (?d * 1000) = unat diff * 1000"
    using d by (simp add: unat_mult_lem [THEN iffD1])
  have q: "unat (?d * 1000 div ?m) = unat diff * 1000 div unat ms"
    by (simp add: unat_div p m)
  have "unat diff * 1000 div unat ms \<le> unat diff * 1000 div 50"
    using assms(2) by (intro div_le_mono2) simp_all
  also have "\<dots> \<le> 400000 * 1000 div 50"
    using assms(1) by (intro div_le_mono) simp
  finally have small: "unat diff * 1000 div unat ms < 2 ^ 32" by simp
  have "unat (ramp_acc diff ms) = take_bit 32 (unat (?d * 1000 div ?m))"
    unfolding ramp_acc_def by (simp add: unsigned_ucast_eq)
  with q small show ?thesis by (simp add: take_bit_nat_eq_self)
qed

lemma unat_abs_diff_u32:
  "unat (abs_diff_u32 t c) = (if unat c < unat t then unat t - unat c else unat c - unat t)"
  by (simp add: abs_diff_u32_def word_less_nat_alt unat_sub word_le_nat_alt)

lemma ramp_cmd_fields:
  "g_userFreq (StepTask_cmd r (mk_cmd CMD_RAMP x y) s) = clamp_u32 x 1 FREQ_MAX \<and>
   g_accel (StepTask_cmd r (mk_cmd CMD_RAMP x y) s) =
     clamp_u32 (if abs_diff_u32 (clamp_u32 x 1 FREQ_MAX) (g_userFreq s) = 0 then g_accel s
                else ramp_acc (abs_diff_u32 (clamp_u32 x 1 FREQ_MAX) (g_userFreq s))
                       (clamp_u32 y 50 60000)) 1 2000000"
  by (simp add: StepTask_cmd_def mk_cmd_def op_defs Let_def abs_diff_u32_def)

lemma ramp_cmd_start:
  assumes "stepper s" and "g_en s \<noteq> 0" and "\<not> g_alarm s"
  shows "g_runReq (StepTask_cmd r (mk_cmd CMD_RAMP x y) s) \<and>
         (\<exists>pre. emitted s (StepTask_cmd r (mk_cmd CMD_RAMP x y) s) =
            pre @ [SetSpeedInHz (g_userFreq (StepTask_cmd r (mk_cmd CMD_RAMP x y) s)),
                   SetAcceleration (g_accel (StepTask_cmd r (mk_cmd CMD_RAMP x y) s)),
                   (if g_dir s \<noteq> 0 then RunBackward else RunForward)])"
  using assms
  by (simp add: StepTask_cmd_def mk_cmd_def op_defs Let_def emitted_def)

lemma ramp_cmd_nat:
  fixes s :: state and x y :: u32 and r :: bool
  assumes "supervisor_inv s"
  defines "target \<equiv> max 1 (min 400000 (unat x))"
      and "ms \<equiv> max 50 (min 60000 (unat y))"
      and "cur \<equiv> unat (g_userFreq s)"
  defines "delta \<equiv> (if cur < target then target - cur else cur - target)"
  shows "unat (g_userFreq (StepTask_cmd r (mk_cmd CMD_RAMP x y) s)) = target"
    and "delta = 0 \<Longrightarrow> g_accel (StepTask_cmd r (mk_cmd CMD_RAMP x y) s) = g_accel s"
    and "delta \<noteq> 0 \<Longrightarrow> unat (g_accel (StepTask_cmd r (mk_cmd CMD_RAMP x y) s))
           = max 1 (min 2000000 (delta * 1000 div ms))"
proof -
  let ?t = "clamp_u32 x 1 FREQ_MAX" and ?m = "clamp_u32 y 50 60000"
  let ?d = "abs_diff_u32 ?t (g_userFreq s)"
  have t: "unat ?t = target"
    by (simp add: unat_clamp_u32 FREQ_MAX_def target_def)
  have m: "unat ?m = ms"
    by (simp add: unat_clamp_u32 ms_def)
  have d: "unat ?d = delta"
    by (simp add: unat_abs_diff_u32 t delta_def cur_def)
  have cur: "1 \<le> cur" "cur \<le> 400000"
    using assms(1) by (simp_all add: supervisor_inv_def cur_def word_le_nat_alt)
  have acc: "1 \<le> g_accel s" "g_accel s \<le> 2000000"
    using assms(1) by (simp_all add: supervisor_inv_def)
  have dle: "unat ?d \<le> 400000"
    unfolding d delta_def target_def using cur by auto
  have mge: "50 \<le> unat ?m"
    unfolding m ms_def by simp
  show "unat (g_userFreq (StepTask_cmd r (mk_cmd CMD_RAMP x y) s)) = target"
    by (simp add: ramp_cmd_fields t)
  show "g_accel (StepTask_cmd r (mk_cmd CMD_RAMP x y) s) = g_accel s" if "delta = 0"
  proof -
    from that d have "?d = 0" by (simp add: unat_eq_0)
    then show ?thesis using acc by (simp add: ramp_cmd_fields clamp_u32_id)
  qed
  show "unat (g_accel (StepTask_cmd r (mk_cmd CMD_RAMP x y) s))
           = max 1 (min 2000000 (delta * 1000 div ms))" if "delta \<noteq> 0"
  proof -
    from that d have "?d \<noteq> 0" by (auto simp: unat_eq_0)
    then show ?thesis
      using unat_ramp_acc [OF dle mge]
      by (simp add: ramp_cmd_fields unat_clamp_u32 d m)
  qed
qed

text \<open>
  Claim C5, as amended. In every reachable state, for a ramp command with payload
  \<open>x\<close> and \<open>y\<close>: let \<open>target\<close> be \<open>x\<close> clamped to the range from 1 to 400000, \<open>ms\<close> be \<open>y\<close>
  clamped to the range from 50 to 60000, and \<open>delta\<close> the distance between \<open>target\<close> and the
  stored frequency. The target is stored as the new frequency. If \<open>delta\<close> is 0 the stored
  acceleration is unchanged; otherwise it is the integer quotient of \<open>delta * 1000\<close> by
  \<open>ms\<close>, rounded down, clamped to the range from 1 to 2000000. If the driver is enabled
  and the alarm inactive, the run request is set and the command ends by pushing the
  stored parameters and calling run in the applied direction, whether or not the engine
  was running.
\<close>

theorem ramp_stores_target_and_truncated_rate:
  assumes "reachable s"
  shows "(let target = max 1 (min 400000 (unat x));
              ms = max 50 (min 60000 (unat y));
              cur = unat (g_userFreq s);
              delta = (if cur < target then target - cur else cur - target);
              s' = StepTask_cmd running (mk_cmd CMD_RAMP x y) s
          in unat (g_userFreq s') = target \<and>
             (delta = 0 \<longrightarrow> g_accel s' = g_accel s) \<and>
             (delta \<noteq> 0 \<longrightarrow> unat (g_accel s') = max 1 (min 2000000 (delta * 1000 div ms))) \<and>
             (g_en s \<noteq> 0 \<and> \<not> g_alarm s \<longrightarrow>
                g_runReq s' \<and>
                (\<exists>pre. emitted s s' =
                   pre @ [SetSpeedInHz (g_userFreq s'), SetAcceleration (g_accel s'),
                          (if g_dir s \<noteq> 0 then RunBackward else RunForward)])))"
proof -
  have i: "supervisor_inv s" using assms by (rule reachable_inv)
  then have st: "stepper s" by (simp add: supervisor_inv_def)
  show ?thesis
    unfolding Let_def
    using ramp_cmd_nat [OF i, where x = x and y = y and r = running]
          ramp_cmd_start [OF st, where x = x and y = y and r = running]
    by blast
qed

text \<open>
  From 10000 Hz to 20000 Hz in 1000 ms gives 10000 Hz/s; a ramp to the current frequency
  keeps the acceleration.
\<close>

theorem ramp_stores_target_and_truncated_rate_witness:
  "reachable booted \<and>
   unat (g_userFreq (StepTask_cmd False (mk_cmd CMD_RAMP 20000 1000) booted)) = 20000 \<and>
   unat (g_accel (StepTask_cmd False (mk_cmd CMD_RAMP 20000 1000) booted)) = 10000 \<and>
   g_accel (StepTask_cmd True (mk_cmd CMD_RAMP 10000 1000) booted) = 200000 \<and>
   g_runReq (StepTask_cmd False (mk_cmd CMD_RAMP 20000 1000) booted)"
  using ramp_stores_target_and_truncated_rate
          [OF reachable_booted, where x = 20000 and y = 1000 and running = False]
        ramp_stores_target_and_truncated_rate
          [OF reachable_booted, where x = 10000 and y = 1000 and running = True]
        reachable_booted
  by (simp add: Let_def booted_def)

text \<open>
  The claim as written rounds the quotient to the nearest integer. A ramp from 10000 Hz to
  10001 Hz in 600 ms has the quotient 1000 / 600, which rounds to 2; the code stores 1.
\<close>

theorem ramp_rate_rounded_counterexample:
  "unat (g_userFreq booted) = 10000 \<and>
   int (unat (g_accel (StepTask_cmd False (mk_cmd CMD_RAMP 10001 600) booted))) = 1 \<and>
   max 1 (min 2000000 (spec_ramp_rate 1 600)) = 2"
  using ramp_cmd_nat(3) [OF reachable_inv [OF reachable_booted],
          where x = 10001 and y = 600 and r = False]
  by (simp add: booted_def spec_ramp_rate_Suc0_600)

section \<open>The direction-change protocol\<close>

text \<open>Every step only appends to the log of calls, and reachable states stay reachable.\<close>

lemma calls_cmd: "\<exists>ys. calls (StepTask_cmd r c s) = calls s @ ys"
  unfolding StepTask_cmd_def by (cases "cmd_type c") (auto simp: op_defs Let_def)

lemma calls_alarm: "\<exists>ys. calls (StepTask_alarm now al s) = calls s @ ys"
  unfolding StepTask_alarm_def by (auto simp: op_defs Let_def)

lemma calls_dirPend: "\<exists>ys. calls (StepTask_dirPend r s) = calls s @ ys"
  unfolding StepTask_dirPend_def by (auto simp: op_defs Let_def)

lemma calls_step: "\<exists>ys. calls (supervisor_step e s) = calls s @ ys"
  by (cases e) (simp_all add: calls_cmd calls_alarm calls_dirPend)

lemma emitted_trans:
  assumes "calls t = calls s @ a" and "calls u = calls t @ b"
  shows "emitted s u = emitted s t @ emitted t u"
  using assms by (simp add: emitted_def)

lemma run_steps_snoc: "run_steps (es @ [e]) s = supervisor_step e (run_steps es s)"
  by (simp add: run_steps_def)

lemma calls_run_steps: "\<exists>ys. calls (run_steps es s) = calls s @ ys"
proof (induction es rule: rev_induct)
  case Nil
  show ?case by (simp add: run_steps_def)
next
  case (snoc e es)
  then obtain a where a: "calls (run_steps es s) = calls s @ a" by blast
  obtain b where "calls (supervisor_step e (run_steps es s)) = calls (run_steps es s) @ b"
    using calls_step by blast
  with a show ?case by (simp add: run_steps_snoc)
qed

lemma reachable_run_steps: "reachable s \<Longrightarrow> reachable (run_steps es s)"
proof (induction es rule: rev_induct)
  case Nil
  then show ?case by (simp add: run_steps_def)
next
  case (snoc e es)
  then show ?case by (simp add: run_steps_snoc reachable_step)
qed

text \<open>
  The rule for the direction pin holds for every step from a state with a stepper
  attached.
\<close>

lemma pin_rule_cmd:
  assumes "stepper s"
  shows "pin_rule (Command r cmd) s"
  using assms unfolding pin_rule_def supervisor_step.simps StepTask_cmd_def
  by (cases "cmd_type cmd")
     (auto simp: op_defs Let_def emitted_def is_dir_write_def dir_level_def)

lemma pin_rule_alarm: "pin_rule (AlarmPoll now al) s"
  unfolding pin_rule_def supervisor_step.simps StepTask_alarm_def
  by (auto simp: op_defs Let_def emitted_def is_dir_write_def)

lemma pin_rule_tick:
  shows "pin_rule (DirTick r) s"
  unfolding pin_rule_def supervisor_step.simps StepTask_dirPend_def
  by (auto simp: op_defs Let_def emitted_def is_dir_write_def dir_level_def)

lemma pin_rule_step: "stepper s \<Longrightarrow> pin_rule e s"
  by (cases e) (simp_all add: pin_rule_cmd pin_rule_alarm pin_rule_tick)

text \<open>
  The pending flag is set only by a set-direction command that sees the engine running,
  and cleared only by a tick that sees it stopped. The requested direction changes only
  in a set-direction command, to the payload of that command.
\<close>

lemma pend_kept_cmd: "g_dirPend s \<Longrightarrow> g_dirPend (StepTask_cmd r cmd s)"
  unfolding StepTask_cmd_def by (cases "cmd_type cmd") (auto simp: op_defs Let_def)

lemma pend_kept_alarm: "g_dirPend s \<Longrightarrow> g_dirPend (StepTask_alarm now al s)"
  unfolding StepTask_alarm_def by (auto simp: op_defs Let_def)

lemma pend_kept_step:
  assumes "g_dirPend s" and "e \<noteq> DirTick False"
  shows "g_dirPend (supervisor_step e s)"
proof (cases e)
  case (Command r cmd)
  then show ?thesis using assms(1) by (simp add: pend_kept_cmd)
next
  case (AlarmPoll now al)
  then show ?thesis using assms(1) by (simp add: pend_kept_alarm)
next
  case (DirTick r)
  with assms(2) have "r" by simp
  with DirTick assms(1) show ?thesis by (simp add: StepTask_dirPend_def)
qed

lemma pend_kept_run_steps:
  assumes "g_dirPend s" and "DirTick False \<notin> set es"
  shows "g_dirPend (run_steps es s)"
  using assms(2)
proof (induction es rule: rev_induct)
  case Nil
  show ?case using assms(1) by (simp add: run_steps_def)
next
  case (snoc e es)
  then have "g_dirPend (run_steps es s)" and "e \<noteq> DirTick False" by auto
  then show ?case by (simp add: run_steps_snoc pend_kept_step)
qed

lemma pend_set_cmd:
  assumes "stepper s" and "\<not> g_dirPend s" and "g_dirPend (StepTask_cmd r cmd s)"
  shows "r \<and> cmd_type cmd = CMD_DIR \<and>
         g_dirNext (StepTask_cmd r cmd s) = (if cmd_a cmd \<noteq> 0 then 1 else 0) \<and>
         g_dir (StepTask_cmd r cmd s) = g_dir s \<and>
         emitted s (StepTask_cmd r cmd s) = [StopMove]"
  using assms unfolding StepTask_cmd_def
  by (cases "cmd_type cmd") (auto simp: op_defs Let_def emitted_def split: if_splits)

lemma pend_set_step:
  assumes "stepper s" and "\<not> g_dirPend s" and "g_dirPend (supervisor_step e s)"
  shows "requested_dir e = Some (g_dirNext (supervisor_step e s)) \<and> \<not> observes_stopped e \<and>
         g_dir (supervisor_step e s) = g_dir s \<and>
         emitted s (supervisor_step e s) = [StopMove]"
proof (cases e)
  case (Command r cmd)
  with assms(3) have "g_dirPend (StepTask_cmd r cmd s)" by simp
  from pend_set_cmd [OF assms(1,2) this] show ?thesis using Command by auto
next
  case (AlarmPoll now al)
  with assms show ?thesis
    by (auto simp: StepTask_alarm_def op_defs Let_def split: if_splits)
next
  case (DirTick r)
  with assms show ?thesis
    by (auto simp: StepTask_dirPend_def op_defs Let_def split: if_splits)
qed

lemma dirNext_cmd:
  "g_dirNext (StepTask_cmd r cmd s) = g_dirNext s \<or>
   (cmd_type cmd = CMD_DIR \<and> g_dirNext (StepTask_cmd r cmd s) = (if cmd_a cmd \<noteq> 0 then 1 else 0))"
  unfolding StepTask_cmd_def
  by (cases "cmd_type cmd") (auto simp: op_defs Let_def)

lemma dirNext_step:
  "g_dirNext (supervisor_step e s) = g_dirNext s \<or>
   requested_dir e = Some (g_dirNext (supervisor_step e s))"
proof (cases e)
  case (Command r cmd)
  then show ?thesis using dirNext_cmd [of r cmd s] by auto
next
  case (AlarmPoll now al)
  then show ?thesis by (auto simp: StepTask_alarm_def op_defs Let_def)
next
  case (DirTick r)
  then show ?thesis by (auto simp: StepTask_dirPend_def op_defs Let_def)
qed

lemma tick_finishes:
  assumes "stepper s" and "g_dirPend s"
  shows "\<not> g_dirPend (StepTask_dirPend False s) \<and>
         g_dir (StepTask_dirPend False s) = g_dirNext s \<and>
         hd (emitted s (StepTask_dirPend False s)) = DigitalWrite PIN_DIR (dir_level (g_dirNext s)) \<and>
         filter is_dir_write (emitted s (StepTask_dirPend False s))
           = [DigitalWrite PIN_DIR (dir_level (g_dirNext s))] \<and>
         StepTask_dirPend r (StepTask_dirPend False s) = StepTask_dirPend False s"
  using assms unfolding StepTask_dirPend_def
  by (auto simp: op_defs Let_def emitted_def is_dir_write_def dir_level_def)

text \<open>
  When no set-direction command that sees the engine stopped comes in between, the
  applied direction and the requested one stay as they are and the pin is not written.
\<close>

lemma pending_cmd:
  assumes "pending_to d d' s" and "r \<or> cmd_type cmd \<noteq> CMD_DIR"
  shows "pending_to d d' (StepTask_cmd r cmd s) \<and>
         filter is_dir_write (emitted s (StepTask_cmd r cmd s)) = []"
  using assms unfolding StepTask_cmd_def pending_to_def
  by (cases "cmd_type cmd")
     (auto simp: op_defs Let_def emitted_def is_dir_write_def)

lemma pending_alarm:
  assumes "pending_to d d' s"
  shows "pending_to d d' (StepTask_alarm now al s) \<and>
         filter is_dir_write (emitted s (StepTask_alarm now al s)) = []"
  using assms unfolding StepTask_alarm_def pending_to_def
  by (auto simp: op_defs Let_def emitted_def is_dir_write_def)

lemma pending_tick:
  assumes "pending_to d d' s"
  shows "pending_to d d' (StepTask_dirPend True s) \<and>
         filter is_dir_write (emitted s (StepTask_dirPend True s)) = []"
  using assms unfolding StepTask_dirPend_def pending_to_def
  by (auto simp: op_defs Let_def emitted_def is_dir_write_def)

lemma pending_step:
  assumes "pending_to d d' s" and "defers e"
  shows "pending_to d d' (supervisor_step e s) \<and>
         filter is_dir_write (emitted s (supervisor_step e s)) = []"
  using assms by (cases e) (simp_all add: pending_cmd pending_alarm pending_tick)

lemma pending_run_steps:
  assumes "pending_to d d' s" and "\<forall>e \<in> set es. defers e"
  shows "pending_to d d' (run_steps es s) \<and>
         filter is_dir_write (emitted s (run_steps es s)) = []"
  using assms(2)
proof (induction es rule: rev_induct)
  case Nil
  show ?case using assms(1) by (simp add: run_steps_def)
next
  case (snoc e es)
  let ?t = "run_steps es s"
  from snoc have t: "pending_to d d' ?t" and f: "filter is_dir_write (emitted s ?t) = []"
    by simp_all
  from snoc.prems have "defers e" by simp
  from pending_step [OF t this]
  have u: "pending_to d d' (supervisor_step e ?t)"
    and g: "filter is_dir_write (emitted ?t (supervisor_step e ?t)) = []" by simp_all
  obtain a where a: "calls ?t = calls s @ a" using calls_run_steps by blast
  obtain b where b: "calls (supervisor_step e ?t) = calls ?t @ b" using calls_step by blast
  show ?case
    using u f g emitted_trans [OF a b] by (simp add: run_steps_snoc)
qed

lemma pending_start:
  assumes "stepper s" and "g_dir s = 0 \<or> g_dir s = 1"
    and "(if x \<noteq> 0 then 1 else 0) \<noteq> g_dir s"
  shows "pending_to (g_dir s) (if x \<noteq> 0 then 1 else 0) (StepTask_cmd True (mk_cmd CMD_DIR x y) s) \<and>
         emitted s (StepTask_cmd True (mk_cmd CMD_DIR x y) s) = [StopMove]"
  using assms
  by (auto simp: StepTask_cmd_def mk_cmd_def op_defs Let_def emitted_def pending_to_def)


lemma defers_no_stop_tick: "\<forall>e \<in> set es. defers e \<Longrightarrow> DirTick False \<notin> set es"
  by auto

text \<open>
  Claim C4, as amended. In every reachable state \<open>s\<close> and for every step \<open>e0\<close>: the step
  writes the direction pin only if the engine reported in that step that it is not
  running, and then the write is the first call of the step, so that it precedes any run
  call, and the only write of the pin in it. The pending flag, once set, survives every
  step but a tick that sees the engine stopped; it becomes set only in a set-direction
  command that sees the engine running, which calls \<open>stopMove\<close> and nothing else and leaves
  the applied direction; and the requested direction changes only to the payload of a
  set-direction command.

  For the protocol: a set-direction command for the direction \<open>d'\<close> other than the applied
  one, handled while the engine runs, calls \<open>stopMove\<close> and nothing else; the pin is not
  written, the applied direction stays, and \<open>d'\<close> becomes pending. Let \<open>es\<close> be any steps
  without a tick that sees the engine stopped, so that the tick after them is the first
  such tick. Each step of \<open>es\<close> obeys the rule for the pin and changes the requested
  direction only as said; the flag is still set after \<open>es\<close>. The tick then clears the flag,
  makes the most recently requested direction the applied one and writes the pin to its
  level, once, before any other call; a tick after it changes nothing, so the flag is
  cleared exactly once. If no step of \<open>es\<close> is a set-direction command that sees the engine
  stopped, the most recently requested direction is \<open>d'\<close>, the applied direction is
  unchanged up to the tick and the pin is not written before it.
\<close>

theorem direction_change_protocol:
  assumes "reachable s"
  shows
    "pin_rule e0 s \<and>
     (g_dirPend s \<and> e0 \<noteq> DirTick False \<longrightarrow> g_dirPend (supervisor_step e0 s)) \<and>
     (\<not> g_dirPend s \<and> g_dirPend (supervisor_step e0 s) \<longrightarrow>
        requested_dir e0 = Some (g_dirNext (supervisor_step e0 s)) \<and> \<not> observes_stopped e0 \<and>
        g_dir (supervisor_step e0 s) = g_dir s \<and> emitted s (supervisor_step e0 s) = [StopMove]) \<and>
     (g_dirNext (supervisor_step e0 s) = g_dirNext s \<or>
        requested_dir e0 = Some (g_dirNext (supervisor_step e0 s))) \<and>
     (d' = (if x \<noteq> 0 then 1 else 0) \<and> d' \<noteq> g_dir s \<and> DirTick False \<notin> set es \<longrightarrow>
        (let s1 = StepTask_cmd True (mk_cmd CMD_DIR x y) s;
             s2 = run_steps es s1;
             s3 = StepTask_dirPend False s2
         in emitted s s1 = [StopMove] \<and> g_dir s1 = g_dir s \<and> g_dirPend s1 \<and> g_dirNext s1 = d' \<and>
            (\<forall>i < length es. pin_rule (es ! i) (run_steps (take i es) s1)) \<and>
            (\<forall>i < length es.
               g_dirNext (run_steps (take (Suc i) es) s1) = g_dirNext (run_steps (take i es) s1) \<or>
               requested_dir (es ! i) = Some (g_dirNext (run_steps (take (Suc i) es) s1))) \<and>
            g_dirPend s2 \<and>
            \<not> g_dirPend s3 \<and> g_dir s3 = g_dirNext s2 \<and>
            hd (emitted s2 s3) = DigitalWrite PIN_DIR (dir_level (g_dirNext s2)) \<and>
            filter is_dir_write (emitted s2 s3) = [DigitalWrite PIN_DIR (dir_level (g_dirNext s2))] \<and>
            StepTask_dirPend r s3 = s3 \<and>
            ((\<forall>e \<in> set es. defers e) \<longrightarrow>
               g_dirNext s2 = d' \<and> g_dir s2 = g_dir s \<and>
               filter is_dir_write (emitted s1 s2) = [])))"
proof -
  have i: "supervisor_inv s" using assms by (rule reachable_inv)
  then have st: "stepper s" and dir: "g_dir s = 0 \<or> g_dir s = 1"
    by (simp_all add: supervisor_inv_def)
  have A: "pin_rule e0 s" using st by (rule pin_rule_step)
  have B: "g_dirPend s \<and> e0 \<noteq> DirTick False \<longrightarrow> g_dirPend (supervisor_step e0 s)"
    using pend_kept_step by blast
  have C: "\<not> g_dirPend s \<and> g_dirPend (supervisor_step e0 s) \<longrightarrow>
        requested_dir e0 = Some (g_dirNext (supervisor_step e0 s)) \<and> \<not> observes_stopped e0 \<and>
        g_dir (supervisor_step e0 s) = g_dir s \<and> emitted s (supervisor_step e0 s) = [StopMove]"
    using pend_set_step [OF st] by blast
  note D = dirNext_step [of e0 s]
  have E: "(let s1 = StepTask_cmd True (mk_cmd CMD_DIR x y) s;
             s2 = run_steps es s1;
             s3 = StepTask_dirPend False s2
         in emitted s s1 = [StopMove] \<and> g_dir s1 = g_dir s \<and> g_dirPend s1 \<and> g_dirNext s1 = d' \<and>
            (\<forall>i < length es. pin_rule (es ! i) (run_steps (take i es) s1)) \<and>
            (\<forall>i < length es.
               g_dirNext (run_steps (take (Suc i) es) s1) = g_dirNext (run_steps (take i es) s1) \<or>
               requested_dir (es ! i) = Some (g_dirNext (run_steps (take (Suc i) es) s1))) \<and>
            g_dirPend s2 \<and>
            \<not> g_dirPend s3 \<and> g_dir s3 = g_dirNext s2 \<and>
            hd (emitted s2 s3) = DigitalWrite PIN_DIR (dir_level (g_dirNext s2)) \<and>
            filter is_dir_write (emitted s2 s3) = [DigitalWrite PIN_DIR (dir_level (g_dirNext s2))] \<and>
            StepTask_dirPend r s3 = s3 \<and>
            ((\<forall>e \<in> set es. defers e) \<longrightarrow>
               g_dirNext s2 = d' \<and> g_dir s2 = g_dir s \<and>
               filter is_dir_write (emitted s1 s2) = []))"
    if h: "d' = (if x \<noteq> 0 then 1 else 0)" "d' \<noteq> g_dir s" "DirTick False \<notin> set es"
  proof -
    let ?s1 = "StepTask_cmd True (mk_cmd CMD_DIR x y) s"
    let ?s2 = "run_steps es ?s1"
    have ne: "(if x \<noteq> 0 then 1 else 0) \<noteq> g_dir s" using h(1,2) by simp
    from pending_start [OF st dir ne, of y]
    have p1: "pending_to (g_dir s) d' ?s1" and e1: "emitted s ?s1 = [StopMove]"
      using h(1) by simp_all
    have r1: "reachable ?s1"
      using reachable_step [OF assms, of "Command True (mk_cmd CMD_DIR x y)"] by simp
    have pins: "\<forall>i < length es. pin_rule (es ! i) (run_steps (take i es) ?s1)"
    proof (intro allI impI)
      fix i
      have "reachable (run_steps (take i es) ?s1)" using r1 by (rule reachable_run_steps)
      then have "stepper (run_steps (take i es) ?s1)"
        using reachable_inv by (auto simp: supervisor_inv_def)
      then show "pin_rule (es ! i) (run_steps (take i es) ?s1)" by (rule pin_rule_step)
    qed
    have nexts: "\<forall>i < length es.
               g_dirNext (run_steps (take (Suc i) es) ?s1) = g_dirNext (run_steps (take i es) ?s1) \<or>
               requested_dir (es ! i) = Some (g_dirNext (run_steps (take (Suc i) es) ?s1))"
    proof (intro allI impI)
      fix i assume "i < length es"
      then have "run_steps (take (Suc i) es) ?s1
          = supervisor_step (es ! i) (run_steps (take i es) ?s1)"
        by (simp add: take_Suc_conv_app_nth run_steps_snoc)
      then show "g_dirNext (run_steps (take (Suc i) es) ?s1) = g_dirNext (run_steps (take i es) ?s1) \<or>
               requested_dir (es ! i) = Some (g_dirNext (run_steps (take (Suc i) es) ?s1))"
        using dirNext_step [of "es ! i" "run_steps (take i es) ?s1"] by simp
    qed
    have pd1: "g_dirPend ?s1" using p1 by (simp add: pending_to_def)
    have pd2: "g_dirPend ?s2" using pd1 h(3) by (rule pend_kept_run_steps)
    have "reachable ?s2" using r1 by (rule reachable_run_steps)
    then have st2: "stepper ?s2" using reachable_inv by (auto simp: supervisor_inv_def)
    note fin = tick_finishes [OF st2 pd2, of r]
    have def: "(\<forall>e \<in> set es. defers e) \<longrightarrow>
               g_dirNext ?s2 = d' \<and> g_dir ?s2 = g_dir s \<and>
               filter is_dir_write (emitted ?s1 ?s2) = []"
      using pending_run_steps [OF p1, of es] by (auto simp: pending_to_def)
    show ?thesis
      unfolding Let_def using p1 e1 pins nexts pd2 fin def by (simp add: pending_to_def)
  qed
  show ?thesis using A B C D E by blast
qed

text \<open>
  The motor runs forward and is asked to turn backward. An acceleration command, an alarm
  poll that is not yet due and a tick that sees the engine running pass; the next tick sees
  it stopped, writes the pin high and restarts the motor backward. A set-direction command
  handled while the engine is stopped writes the pin at once, before its run call.
\<close>

theorem direction_change_protocol_witness:
  "reachable moving \<and> g_dir moving = 0 \<and> \<not> g_dirPend moving \<and>
   DirTick False \<notin> set [Command True (mk_cmd CMD_ACCEL 50000 0), AlarmPoll 5 False, DirTick True] \<and>
   defers (Command True (mk_cmd CMD_ACCEL 50000 0)) \<and> defers (AlarmPoll 5 False) \<and>
   defers (DirTick True) \<and>
   emitted moving (supervisor_step (Command False (mk_cmd CMD_DIR 1 0)) moving)
     = [DigitalWrite PIN_DIR HIGH, SetSpeedInHz 10000, SetAcceleration 200000, RunBackward] \<and>
   observes_stopped (Command False (mk_cmd CMD_DIR 1 0)) \<and>
   emitted moving turning = [StopMove] \<and> g_dirPend turning \<and> g_dir turning = 0 \<and>
   g_dirPend (run_steps [Command True (mk_cmd CMD_ACCEL 50000 0), AlarmPoll 5 False, DirTick True] turning) \<and>
   emitted (run_steps [Command True (mk_cmd CMD_ACCEL 50000 0), AlarmPoll 5 False, DirTick True] turning)
     (StepTask_dirPend False
       (run_steps [Command True (mk_cmd CMD_ACCEL 50000 0), AlarmPoll 5 False, DirTick True] turning))
     = [DigitalWrite PIN_DIR HIGH, SetSpeedInHz 10000, SetAcceleration 50000, RunBackward] \<and>
   \<not> g_dirPend (StepTask_dirPend False
       (run_steps [Command True (mk_cmd CMD_ACCEL 50000 0), AlarmPoll 5 False, DirTick True] turning)) \<and>
   g_dir (StepTask_dirPend False
       (run_steps [Command True (mk_cmd CMD_ACCEL 50000 0), AlarmPoll 5 False, DirTick True] turning)) = 1"
proof -
  have v: "run_steps [Command True (mk_cmd CMD_ACCEL 50000 0), AlarmPoll 5 False, DirTick True] turning
      = turning\<lparr>g_accel := 50000,
          calls := calls turning @ [SetSpeedInHz 10000, SetAcceleration 50000, RunForward]\<rparr>"
    by (simp add: run_steps_def turning_eq moving_eq booted_def StepTask_cmd_def mk_cmd_def
        StepTask_alarm_def StepTask_dirPend_def op_defs Let_def clamp_u32_def FREQ_MAX_def)
  show ?thesis
    using direction_change_protocol
      [OF reachable_moving, where x = 1 and y = 0 and r = False and d' = 1
         and es = "[Command True (mk_cmd CMD_ACCEL 50000 0), AlarmPoll 5 False, DirTick True]"
         and ?e0.0 = "Command False (mk_cmd CMD_DIR 1 0)"]
      reachable_moving
    unfolding v
    by (simp add: Let_def turning_def [symmetric] turning_eq moving_eq booted_def
        StepTask_cmd_def mk_cmd_def StepTask_dirPend_def op_defs emitted_def
        is_dir_write_def clamp_u32_def FREQ_MAX_def)
qed

text \<open>
  The claim as written says that the first tick that sees the engine stopped writes the
  pin to \<open>d'\<close>, in every reachable execution. The motor runs forward and is asked to turn
  backward, so \<open>d'\<close> is 1. The engine stops, and the next pass of the loop drains a stop
  command, a set-direction to 1 and a set-direction to 0, each seeing the engine stopped:
  the two set-direction commands write the pin themselves, high and then low, and the
  flag stays set. The tick of that pass, the first to see the engine stopped, clears the
  flag and writes the pin low, which is not the level of \<open>d'\<close>.
\<close>

theorem pin_written_to_first_request_counterexample:
  "g_dir moving = 0 \<and> emitted moving turning = [StopMove] \<and> g_dirNext turning = 1 \<and>
   g_dirPend turning \<and>
   emitted turning
     (run_steps [Command False (mk_cmd CMD_STOP 0 0), Command False (mk_cmd CMD_DIR 1 0),
                 Command False (mk_cmd CMD_DIR 0 0)] turning)
     = [StopMove, DigitalWrite PIN_DIR HIGH, DigitalWrite PIN_DIR LOW] \<and>
   g_dirPend
     (run_steps [Command False (mk_cmd CMD_STOP 0 0), Command False (mk_cmd CMD_DIR 1 0),
                 Command False (mk_cmd CMD_DIR 0 0)] turning) \<and>
   emitted
     (run_steps [Command False (mk_cmd CMD_STOP 0 0), Command False (mk_cmd CMD_DIR 1 0),
                 Command False (mk_cmd CMD_DIR 0 0)] turning)
     (StepTask_dirPend False
       (run_steps [Command False (mk_cmd CMD_STOP 0 0), Command False (mk_cmd CMD_DIR 1 0),
                   Command False (mk_cmd CMD_DIR 0 0)] turning))
     = [DigitalWrite PIN_DIR LOW] \<and>
   DigitalWrite PIN_DIR LOW \<noteq> DigitalWrite PIN_DIR (dir_level 1)"
proof -
  have v: "run_steps [Command False (mk_cmd CMD_STOP 0 0), Command False (mk_cmd CMD_DIR 1 0),
                 Command False (mk_cmd CMD_DIR 0 0)] turning
      = turning\<lparr>g_runReq := False, g_dirNext := 0,
          calls := calls turning @ [StopMove, DigitalWrite PIN_DIR HIGH, DigitalWrite PIN_DIR LOW]\<rparr>"
    by (simp add: run_steps_def turning_eq moving_eq booted_def StepTask_cmd_def mk_cmd_def
        op_defs Let_def)
  show ?thesis
    unfolding v
    by (simp add: turning_eq moving_eq booted_def StepTask_dirPend_def op_defs Let_def
        emitted_def dir_level_def)
qed

end
